theory Spec2Isabelle
  imports Complex_Main
begin

section \<open>Voice conversation loop: a shallow embedding of \<^verbatim>\<open>voice_loop.py\<close>\<close>

text \<open>
  The program is a single Python module.  Its functions talk to the outside world
  (microphone, speech-to-text engine, agent subprocess, text-to-speech commands, the
  file system, the clock).  Each function is modelled as a HOL function that takes the
  outcome of every external call it makes as an argument and returns its result together
  with the state it leaves behind.  An exception that leaves a function is the \<open>Inl\<close>
  branch of a sum.  Console output is not modelled.

  Python strings are modelled as \<^typ>\<open>string\<close>, one \<^typ>\<open>char\<close> per code point.
\<close>

subsection \<open>Configuration constants\<close>

definition SAMPLE_RATE :: nat where
  "SAMPLE_RATE = 16000"

definition SILENCE_DURATION :: real where
  "SILENCE_DURATION = 1.5"

definition MIN_SPEECH_DURATION :: real where
  "MIN_SPEECH_DURATION = 0.5"

definition MAX_REPLY_CHARS :: nat where
  "MAX_REPLY_CHARS = 500"

subsection \<open>Exceptions\<close>

text \<open>
  The subclasses of Python's \<^verbatim>\<open>Exception\<close> that the module names or that its
  expressions can raise.  \<^verbatim>\<open>KeyboardInterrupt\<close> is not an \<^verbatim>\<open>Exception\<close>; it is
  delivered by the user and is modelled in the turn loop, the only place where the
  source handles it.
\<close>

datatype exn =
    TimeoutExpired
  | FileNotFoundError
  | OSError
  | JSONDecodeError
  | KeyError
  | IndexError
  | AttributeError
  | TypeError
  | ValueError
  | RuntimeError

subsection \<open>String operations of the Python library used by the module\<close>

definition startswith :: "string \<Rightarrow> string \<Rightarrow> bool" where
  "startswith s pre = (take (length pre) s = pre)"

text \<open>
  \<^verbatim>\<open>s.replace(old, new)\<close>: occurrences are found from the left and do not overlap.
  With an empty \<open>old\<close> Python puts \<open>new\<close> before every character and at the end.
\<close>

fun str_replace :: "string \<Rightarrow> string \<Rightarrow> string \<Rightarrow> string" where
  "str_replace old new [] = (if old = [] then new else [])"
| "str_replace old new (c # cs) =
     (if old = [] then new @ c # str_replace old new cs
      else if startswith (c # cs) old
        then new @ str_replace old new (drop (length old - 1) cs)
      else c # str_replace old new cs)"

text \<open>\<^verbatim>\<open>s.rfind(sub)\<close>: the highest index at which \<open>sub\<close> starts, or \<open>-1\<close>.\<close>

fun rfind :: "string \<Rightarrow> string \<Rightarrow> int" where
  "rfind [] sub = (if sub = [] then 0 else -1)"
| "rfind (c # cs) sub =
     (let r = rfind cs sub
      in if r \<ge> 0 then r + 1
         else if startswith (c # cs) sub then 0
         else -1)"

text \<open>\<^verbatim>\<open>sub in s\<close> for strings.\<close>

fun contains :: "string \<Rightarrow> string \<Rightarrow> bool" where
  "contains [] sub = (sub = [])"
| "contains (c # cs) sub = (startswith (c # cs) sub \<or> contains cs sub)"

text \<open>
  \<^verbatim>\<open>str.isspace\<close> on the code points below 256: tab to carriage return, the four
  separators \<open>0x1c\<close> to \<open>0x1f\<close>, space, \<open>0x85\<close> and \<open>0xa0\<close>.
\<close>

definition py_isspace :: "char \<Rightarrow> bool" where
  "py_isspace c =
     (let n = (of_char c :: nat)
      in (9 \<le> n \<and> n \<le> 13) \<or> (28 \<le> n \<and> n \<le> 31) \<or> n = 32 \<or> n = 133 \<or> n = 160)"

definition py_strip :: "string \<Rightarrow> string" where
  "py_strip s = rev (dropWhile py_isspace (rev (dropWhile py_isspace s)))"

text \<open>
  \<^verbatim>\<open>str.lower\<close> on the code points below 256: the ASCII capitals and the Latin-1
  capitals \<open>0xc0\<close> to \<open>0xde\<close> (the multiplication sign \<open>0xd7\<close> apart) move up by 32.
\<close>

definition py_lower_char :: "char \<Rightarrow> char" where
  "py_lower_char c =
     (let n = (of_char c :: nat)
      in if (65 \<le> n \<and> n \<le> 90) \<or> (192 \<le> n \<and> n \<le> 222 \<and> n \<noteq> 215)
         then char_of (n + 32) else c)"

definition py_lower :: "string \<Rightarrow> string" where
  "py_lower s = map py_lower_char s"

text \<open>\<^verbatim>\<open>sep.join(parts)\<close>.\<close>

fun join :: "string \<Rightarrow> string list \<Rightarrow> string" where
  "join sep [] = []"
| "join sep [x] = x"
| "join sep (x # y # ys) = x @ sep @ join sep (y # ys)"

subsection \<open>Values delivered by \<^verbatim>\<open>json.loads\<close>\<close>

text \<open>
  A JSON object is the list of its items; \<^verbatim>\<open>json.loads\<close> delivers each key once.
\<close>

datatype json =
    JNull
  | JBool bool
  | JNum real
  | JStr string
  | JArr "json list"
  | JObj "(string \<times> json) list"

text \<open>Python's truth value of an object, as \<^verbatim>\<open>if p.get("text")\<close> tests it.\<close>

fun truthy :: "json \<Rightarrow> bool" where
  "truthy JNull = False"
| "truthy (JBool b) = b"
| "truthy (JNum x) = (x \<noteq> 0)"
| "truthy (JStr s) = (s \<noteq> [])"
| "truthy (JArr xs) = (xs \<noteq> [])"
| "truthy (JObj kvs) = (kvs \<noteq> [])"

text \<open>
  \<^verbatim>\<open>v.get(key, default)\<close>: only a dict has the method; on any other value the
  attribute lookup raises \<^verbatim>\<open>AttributeError\<close>.
\<close>

fun json_get :: "json \<Rightarrow> string \<Rightarrow> json \<Rightarrow> exn + json" where
  "json_get (JObj kvs) key dflt =
     Inr (case map_of kvs key of None \<Rightarrow> dflt | Some v \<Rightarrow> v)"
| "json_get _ key dflt = Inl AttributeError"

text \<open>
  \<^verbatim>\<open>for p in v\<close>: a list gives its elements, a dict its keys, a string its
  characters; \<^verbatim>\<open>None\<close>, a bool and a number are not iterable.
\<close>

fun py_iter :: "json \<Rightarrow> exn + json list" where
  "py_iter (JArr xs) = Inr xs"
| "py_iter (JObj kvs) = Inr (map (\<lambda>kv. JStr (fst kv)) kvs)"
| "py_iter (JStr s) = Inr (map (\<lambda>c. JStr [c]) s)"
| "py_iter _ = Inl TypeError"

text \<open>
  \<^verbatim>\<open>[p.get("text", "") for p in payloads if p.get("text")]\<close>: the condition is
  evaluated first, element by element, so the first element without a \<^verbatim>\<open>get\<close>
  method raises.
\<close>

fun reply_parts :: "json list \<Rightarrow> exn + json list" where
  "reply_parts [] = Inr []"
| "reply_parts (p # ps) =
     (case json_get p ''text'' JNull of
        Inl e \<Rightarrow> Inl e
      | Inr c \<Rightarrow>
          if truthy c then
            (case json_get p ''text'' (JStr []) of
               Inl e \<Rightarrow> Inl e
             | Inr t \<Rightarrow>
                 (case reply_parts ps of
                    Inl e \<Rightarrow> Inl e
                  | Inr ts \<Rightarrow> Inr (t # ts)))
          else reply_parts ps)"

text \<open>\<^verbatim>\<open>" ".join(parts)\<close> accepts strings only.\<close>

fun str_items :: "json list \<Rightarrow> exn + string list" where
  "str_items [] = Inr []"
| "str_items (JStr s # vs) =
     (case str_items vs of Inl e \<Rightarrow> Inl e | Inr ss \<Rightarrow> Inr (s # ss))"
| "str_items (_ # vs) = Inl TypeError"

subsection \<open>Session counters\<close>

record counters =
  turn_count :: int
  consecutive_errors :: int

definition count_error :: "counters \<Rightarrow> counters" where
  "count_error st = st\<lparr>consecutive_errors := consecutive_errors st + 1\<rparr>"

subsection \<open>Agent client: \<^verbatim>\<open>ask_agent\<close>\<close>

text \<open>
  What \<^verbatim>\<open>subprocess.run\<close> does for the agent command: it raises, or it completes
  with a return code and a standard output.  The third field is what
  \<^verbatim>\<open>json.loads\<close> makes of that output: \<open>None\<close> when the decoder raises
  \<^verbatim>\<open>JSONDecodeError\<close>.
\<close>

datatype run_outcome =
    Raised exn
  | Completed int string "json option"

text \<open>The body of the second \<^verbatim>\<open>try\<close> block up to the stripped reply.\<close>

definition parse_reply :: "json option \<Rightarrow> exn + string" where
  "parse_reply parsed =
     (case parsed of
        None \<Rightarrow> Inl JSONDecodeError
      | Some data \<Rightarrow>
          (case json_get data ''result'' (JObj []) of
             Inl e \<Rightarrow> Inl e
           | Inr res \<Rightarrow>
               (case json_get res ''payloads'' (JArr []) of
                  Inl e \<Rightarrow> Inl e
                | Inr payloads \<Rightarrow>
                    (case py_iter payloads of
                       Inl e \<Rightarrow> Inl e
                     | Inr ps \<Rightarrow>
                         (case reply_parts ps of
                            Inl e \<Rightarrow> Inl e
                          | Inr parts \<Rightarrow>
                              (case str_items parts of
                                 Inl e \<Rightarrow> Inl e
                               | Inr ss \<Rightarrow> Inr (py_strip (join '' '' ss))))))))"

text \<open>Truncation for speech: lines 204 to 210.\<close>

definition truncate_reply :: "string \<Rightarrow> string" where
  "truncate_reply reply =
     (if length reply > MAX_REPLY_CHARS then
        (let truncated = take MAX_REPLY_CHARS reply;
             last_period = rfind truncated ''.''
         in if last_period > int (MAX_REPLY_CHARS div 2)
            then take (nat (last_period + 1)) truncated
            else truncated @ ''...'')
      else reply)"

text \<open>Markdown stripping: lines 213 and 214.\<close>

definition markers :: "string list" where
  "markers = [''**'', ''```'', ''`'', ''- '', ''* '']"

definition strip_markdown :: "string \<Rightarrow> string" where
  "strip_markdown reply = fold (\<lambda>ch r. str_replace ch [] r) markers reply"

definition ask_agent :: "run_outcome \<Rightarrow> counters \<Rightarrow> (exn + string) \<times> counters" where
  "ask_agent out st =
     (case out of
        Raised e \<Rightarrow>
          if e = TimeoutExpired
          then (Inr ''Sorry, that took too long. Try again.'', count_error st)
          else (Inl e, st)
      | Completed returncode stderr parsed \<Rightarrow>
          if returncode \<noteq> 0
          then (Inr ''Sorry, I hit an error. Try again.'', count_error st)
          else
            (case parse_reply parsed of
               Inl e \<Rightarrow>
                 if e = JSONDecodeError \<or> e = KeyError \<or> e = IndexError
                 then (Inr ''Sorry, something went wrong parsing the response.'',
                       count_error st)
                 else (Inl e, st)
             | Inr reply \<Rightarrow>
                 if reply = []
                 then (Inr ''I processed that but had nothing to say.'', count_error st)
                 else (Inr (strip_markdown (truncate_reply reply)),
                       st\<lparr>turn_count := turn_count st + 1, consecutive_errors := 0\<rparr>)))"

text \<open>
  A well-formed agent answer whose single payload holds 600 letters and no period:
  \<^verbatim>\<open>{"result": {"payloads": [{"text": "aaa...a"}]}}\<close>.
\<close>

definition long_reply_json :: json where
  "long_reply_json =
     JObj [(''result'', JObj [(''payloads'',
       JArr [JObj [(''text'', JStr (replicate 600 CHR ''a''))]])])]"

subsection \<open>Utterance recorder: \<^verbatim>\<open>record_utterance\<close>\<close>

text \<open>
  One block of samples as the audio stream delivers it.  A floating-point number is a
  real number; the model performs no floating-point operation on samples.
\<close>

type_synonym frame = "real list"

text \<open>
  What one call of \<^verbatim>\<open>stream.read\<close> and the statements after it see: the samples
  of the block, the value of \<^verbatim>\<open>np.sqrt(np.mean(data ** 2))\<close> that numpy computes
  for them (taken as given, since the computation is numpy's), and the value that
  \<^verbatim>\<open>time.time()\<close> returns during that pass of the loop.
\<close>

record block =
  samples :: frame
  level :: real
  clock :: real

record recorder =
  audio_chunks :: "frame list"
  speech_started :: bool
  silence_start :: "real option"

text \<open>
  One pass through the body of the \<^verbatim>\<open>while True\<close> loop, lines 96 to 111.  The
  second component says whether the pass left the loop by \<^verbatim>\<open>break\<close>; the
  \<^verbatim>\<open>append\<close> at the end of the body is reached only otherwise.  The two
  comparisons are comparisons of real numbers, and the difference of the two clock
  values is taken exactly.
\<close>

definition frame_step :: "real \<Rightarrow> recorder \<Rightarrow> block \<Rightarrow> recorder \<times> bool" where
  "frame_step threshold st b =
     (let data = samples b; rms = level b; now = clock b;
          (st1, brk) =
            (if rms > threshold then
               (st\<lparr>speech_started := True, silence_start := None\<rparr>, False)
             else if speech_started st then
               (case silence_start st of
                  None \<Rightarrow> (st\<lparr>silence_start := Some now\<rparr>, False)
                | Some t0 \<Rightarrow> (st, now - t0 > SILENCE_DURATION))
             else (st, False))
      in if brk then (st1, True)
         else if speech_started st1
           then (st1\<lparr>audio_chunks := audio_chunks st1 @ [data]\<rparr>, False)
         else (st1, False))"

text \<open>
  The loop over the blocks the stream delivers.  The loop has no exit but
  \<^verbatim>\<open>break\<close>: on a stream that ends before the break the result is \<open>None\<close>, the
  recorder is still waiting for the next block.
\<close>

fun record_loop :: "real \<Rightarrow> recorder \<Rightarrow> block list \<Rightarrow> recorder option" where
  "record_loop threshold st [] = None"
| "record_loop threshold st (b # stream) =
     (case frame_step threshold st b of
        (st', True) \<Rightarrow> Some st'
      | (st', False) \<Rightarrow> record_loop threshold st' stream)"

text \<open>
  The state of the same loop after it has taken all the given blocks without leaving;
  \<open>None\<close> if it left by \<^verbatim>\<open>break\<close> on one of them.
\<close>

fun recorder_after :: "real \<Rightarrow> recorder \<Rightarrow> block list \<Rightarrow> recorder option" where
  "recorder_after threshold st [] = Some st"
| "recorder_after threshold st (b # stream) =
     (case frame_step threshold st b of
        (st', True) \<Rightarrow> None
      | (st', False) \<Rightarrow> recorder_after threshold st' stream)"

definition recorder_init :: recorder where
  "recorder_init = \<lparr>audio_chunks = [], speech_started = False, silence_start = None\<rparr>"

text \<open>
  The statements after the loop, lines 113 to 119.  \<^verbatim>\<open>np.concatenate\<close> raises
  \<^verbatim>\<open>ValueError\<close> on an empty list of arrays.  The option is the function's own
  \<^verbatim>\<open>None\<close> for a clip that is too short.
\<close>

definition finish_recording :: "recorder \<Rightarrow> exn + frame option" where
  "finish_recording st =
     (if audio_chunks st = [] then Inl ValueError
      else
        (let audio = concat (audio_chunks st);
             duration = real (length audio) / real SAMPLE_RATE
         in if duration < MIN_SPEECH_DURATION then Inr None
            else Inr (Some audio)))"

definition record_utterance :: "real \<Rightarrow> block list \<Rightarrow> (exn + frame option) option" where
  "record_utterance threshold stream =
     (case record_loop threshold recorder_init stream of
        None \<Rightarrow> None
      | Some st \<Rightarrow> Some (finish_recording st))"

text \<open>
  Blocks of 1600 samples (a tenth of a second of audio) used in the examples below,
  with their levels.  Every number in the examples is a binary fraction, so the
  floating-point operations of the source are exact on them.
\<close>

definition loud_block :: frame where
  "loud_block = replicate 1600 (1/2)"

definition quiet_block :: frame where
  "quiet_block = replicate 1600 0"

definition last_block :: frame where
  "last_block = replicate 1600 (1/1024)"

text \<open>
  A stream: one loud block at time 0, thirteen quiet blocks at times \<open>1/8\<close> to
  \<open>13/8\<close>, and a last quiet block at time \<open>14/8\<close>.  The silence timer starts at
  \<open>1/8\<close>; at \<open>13/8\<close> the elapsed time is \<open>1.5\<close>, not more.
\<close>

definition example_prefix :: "block list" where
  "example_prefix =
     \<lparr>samples = loud_block, level = 1/2, clock = 0\<rparr> #
     map (\<lambda>k. \<lparr>samples = quiet_block, level = 0, clock = real k / 8\<rparr>) [1..<14]"

definition final_block :: block where
  "final_block = \<lparr>samples = last_block, level = 1/1024, clock = 14/8\<rparr>"

definition example_stream :: "block list" where
  "example_stream = example_prefix @ [final_block]"

text \<open>The recorder after \<^const>\<open>example_prefix\<close>: in its trailing-silence state.\<close>

definition trailing_state :: recorder where
  "trailing_state =
     \<lparr>audio_chunks = loud_block # replicate 13 quiet_block, speech_started = True,
      silence_start = Some (1/8)\<rparr>"

subsection \<open>Transcription adapter: \<^verbatim>\<open>transcribe\<close>\<close>

text \<open>
  The state the adapter touches: whether the engine has been loaded (the global
  \<^verbatim>\<open>whisper_model\<close> is no longer \<^verbatim>\<open>None\<close>) and the files that exist.
\<close>

record adapter =
  model_loaded :: bool
  files :: "string set"

text \<open>
  \<open>tmp\<close> is the name \<^verbatim>\<open>NamedTemporaryFile(delete=False)\<close> picks, \<open>load_error\<close>
  the exception \<^verbatim>\<open>whisper.load_model\<close> raises (if any), \<open>engine\<close> what
  \<^verbatim>\<open>whisper_model.transcribe\<close> does: it raises, or it returns a result whose
  \<^verbatim>\<open>"text"\<close> entry is the given string.  The statements run in the source's order:
  load, write the file, call the engine, \<^verbatim>\<open>os.unlink(tmp)\<close>, strip the text.
\<close>

definition transcribe ::
    "string \<Rightarrow> exn option \<Rightarrow> exn + string \<Rightarrow> adapter \<Rightarrow> (exn + string) \<times> adapter" where
  "transcribe tmp load_error engine st =
     (case (if model_loaded st then Inr st
            else (case load_error of
                    Some e \<Rightarrow> Inl e
                  | None \<Rightarrow> Inr (st\<lparr>model_loaded := True\<rparr>))) of
        Inl e \<Rightarrow> (Inl e, st)
      | Inr st1 \<Rightarrow>
          (let st2 = st1\<lparr>files := insert tmp (files st1)\<rparr>
           in case engine of
                Inl e \<Rightarrow> (Inl e, st2)
              | Inr result_text \<Rightarrow>
                  (Inr (py_strip result_text), st2\<lparr>files := files st2 - {tmp}\<rparr>)))"

subsection \<open>Speech synthesis router: \<^verbatim>\<open>speak\<close>\<close>

record tts_config =
  ELEVENLABS_API_KEY :: string
  OPENAI_API_KEY :: string
  ELEVENLABS_SPEED :: real

datatype backend = ElevenLabs | OpenAI

datatype tmp_path = raw_path | fast_path

text \<open>The external commands a call of \<^verbatim>\<open>speak\<close> starts, in order.\<close>

datatype tts_event =
    Request backend
  | Ffmpeg
  | Afplay tmp_path
  | Say string
  | Unlink tmp_path

text \<open>
  What the outside world does during one call: the exception each
  \<^verbatim>\<open>subprocess.run\<close> raises (if any), and the size of each output file
  (\<open>None\<close> when the file does not exist).
\<close>

record tts_env =
  curl_error :: "exn option"
  raw_size :: "nat option"
  ffmpeg_error :: "exn option"
  fast_size :: "nat option"
  afplay_error :: "exn option"
  say_error :: "exn option"

text \<open>
  \<^verbatim>\<open>not os.path.exists(p) or os.path.getsize(p) < limit\<close> and
  \<^verbatim>\<open>os.path.exists(p) and os.path.getsize(p) > limit\<close>.
\<close>

definition missing_or_below :: "nat option \<Rightarrow> nat \<Rightarrow> bool" where
  "missing_or_below sz limit = (case sz of None \<Rightarrow> True | Some n \<Rightarrow> n < limit)"

definition exists_and_above :: "nat option \<Rightarrow> nat \<Rightarrow> bool" where
  "exists_and_above sz limit = (case sz of None \<Rightarrow> False | Some n \<Rightarrow> n > limit)"

text \<open>
  Each function returns the exception that leaves it (if any) and the commands it
  started.  \<^verbatim>\<open>speak_macos\<close> handles \<^verbatim>\<open>FileNotFoundError\<close> and then every other
  \<^verbatim>\<open>Exception\<close>; both handlers only print.
\<close>

definition speak_macos :: "tts_env \<Rightarrow> string \<Rightarrow> exn option \<times> tts_event list" where
  "speak_macos env text =
     (case say_error env of
        None \<Rightarrow> (None, [Say text])
      | Some e \<Rightarrow>
          if e = FileNotFoundError then (None, [Say text])
          else (None, [Say text]))"

text \<open>The \<^verbatim>\<open>try\<close> block of \<^verbatim>\<open>speak_elevenlabs\<close>, lines 229 to 269.\<close>

definition elevenlabs_try :: "tts_config \<Rightarrow> tts_env \<Rightarrow> string \<Rightarrow> exn option \<times> tts_event list" where
  "elevenlabs_try cfg env text =
     (case curl_error env of
        Some e \<Rightarrow> (Some e, [Request ElevenLabs])
      | None \<Rightarrow>
          if missing_or_below (raw_size env) 1000 then
            (let (err, evs) = speak_macos env text
             in (err, Request ElevenLabs # evs))
          else if ELEVENLABS_SPEED cfg \<noteq> 1.0 then
            (case ffmpeg_error env of
               Some e \<Rightarrow> (Some e, [Request ElevenLabs, Ffmpeg])
             | None \<Rightarrow>
                 (let play_path =
                        (if exists_and_above (fast_size env) 500
                         then fast_path else raw_path)
                  in (afplay_error env, [Request ElevenLabs, Ffmpeg, Afplay play_path])))
          else (afplay_error env, [Request ElevenLabs, Afplay raw_path]))"

text \<open>
  \<^verbatim>\<open>except Exception\<close> falls back to \<^verbatim>\<open>speak_macos\<close>; \<^verbatim>\<open>finally\<close> removes
  both temporary files, and a failing removal is swallowed.
\<close>

definition speak_elevenlabs :: "tts_config \<Rightarrow> tts_env \<Rightarrow> string \<Rightarrow> exn option \<times> tts_event list" where
  "speak_elevenlabs cfg env text =
     (let (err, evs) = elevenlabs_try cfg env text;
          (err', evs') =
            (case err of
               None \<Rightarrow> (None, evs)
             | Some e \<Rightarrow>
                 (let (err2, evs2) = speak_macos env text in (err2, evs @ evs2)))
      in (err', evs' @ [Unlink raw_path, Unlink fast_path]))"

text \<open>The \<^verbatim>\<open>try\<close> block of \<^verbatim>\<open>speak_openai\<close>, lines 286 to 307.\<close>

definition openai_try :: "tts_env \<Rightarrow> string \<Rightarrow> exn option \<times> tts_event list" where
  "openai_try env text =
     (case curl_error env of
        Some e \<Rightarrow> (Some e, [Request OpenAI])
      | None \<Rightarrow>
          if missing_or_below (raw_size env) 1000 then
            (let (err, evs) = speak_macos env text
             in (err, Request OpenAI # evs))
          else (afplay_error env, [Request OpenAI, Afplay raw_path]))"

definition speak_openai :: "tts_env \<Rightarrow> string \<Rightarrow> exn option \<times> tts_event list" where
  "speak_openai env text =
     (let (err, evs) = openai_try env text;
          (err', evs') =
            (case err of
               None \<Rightarrow> (None, evs)
             | Some e \<Rightarrow>
                 (let (err2, evs2) = speak_macos env text in (err2, evs @ evs2)))
      in (err', evs' @ [Unlink raw_path]))"

definition speak :: "tts_config \<Rightarrow> tts_env \<Rightarrow> string \<Rightarrow> exn option \<times> tts_event list" where
  "speak cfg env text =
     (if ELEVENLABS_API_KEY cfg \<noteq> [] then speak_elevenlabs cfg env text
      else if OPENAI_API_KEY cfg \<noteq> [] then speak_openai env text
      else speak_macos env text)"

fun is_request :: "tts_event \<Rightarrow> bool" where
  "is_request (Request b) = True"
| "is_request _ = False"

fun is_say :: "tts_event \<Rightarrow> bool" where
  "is_say (Say t) = True"
| "is_say _ = False"

fun is_afplay :: "tts_event \<Rightarrow> bool" where
  "is_afplay (Afplay p) = True"
| "is_afplay _ = False"

text \<open>Configurations and an outside world used in the examples below.\<close>

definition local_cfg :: tts_config where
  "local_cfg = \<lparr>ELEVENLABS_API_KEY = [], OPENAI_API_KEY = [], ELEVENLABS_SPEED = 1\<rparr>"

definition cloud_cfg :: tts_config where
  "cloud_cfg = \<lparr>ELEVENLABS_API_KEY = ''key'', OPENAI_API_KEY = ''key2'', ELEVENLABS_SPEED = 1\<rparr>"

text \<open>The cloud request writes a file of 0 bytes; no command raises.\<close>

definition empty_file_env :: tts_env where
  "empty_file_env =
     \<lparr>curl_error = None, raw_size = Some 0, ffmpeg_error = None, fast_size = None,
      afplay_error = None, say_error = None\<rparr>"

text \<open>The cloud request runs into its timeout and leaves no file.\<close>

definition curl_timeout_env :: tts_env where
  "curl_timeout_env =
     \<lparr>curl_error = Some TimeoutExpired, raw_size = None, ffmpeg_error = None,
      fast_size = None, afplay_error = None, say_error = None\<rparr>"

text \<open>The cloud request writes an audio file of 20000 bytes; no command raises.\<close>

definition good_env :: tts_env where
  "good_env =
     \<lparr>curl_error = None, raw_size = Some 20000, ffmpeg_error = None, fast_size = None,
      afplay_error = None, say_error = None\<rparr>"

subsection \<open>Turn loop: \<^verbatim>\<open>main\<close>\<close>

text \<open>The reset checks at the head of the loop body, lines 371 to 378.\<close>

definition reset_checks :: "int \<Rightarrow> counters \<Rightarrow> counters" where
  "reset_checks MAX_TURNS st =
     (let st1 = (if turn_count st \<ge> MAX_TURNS
                 then st\<lparr>turn_count := 0, consecutive_errors := 0\<rparr> else st)
      in if consecutive_errors st1 \<ge> 3
         then st1\<lparr>turn_count := 0, consecutive_errors := 0\<rparr> else st1)"

text \<open>The literal list of lines 386 to 390.\<close>

definition denylist :: "string list" where
  "denylist =
     [[], ''you'', ''thank you.'', ''thanks for watching!'',
      ''thanks for watching.'', ''thank you for watching.'',
      ''bye.'', ''bye'', ''the end.'', ''hmm.'']"

text \<open>\<^verbatim>\<open>not text or text.lower().strip() in [...]\<close>.\<close>

definition discards :: "string \<Rightarrow> bool" where
  "discards text = (text = [] \<or> py_strip (py_lower text) \<in> set denylist)"

text \<open>
  What the outside world does during one pass through the loop body: the stage (if
  any) during which the user presses Ctrl+C, what \<^verbatim>\<open>record_utterance\<close> and
  \<^verbatim>\<open>transcribe\<close> return or raise, what the agent subprocess does, and what the
  speech commands do.
\<close>

datatype stage = AtRecord | AtTranscribe | AtAsk | AtSpeak

record turn_env =
  interrupt :: "stage option"
  recorded :: "exn + frame option"
  transcript :: "exn + string"
  agent :: run_outcome
  tts :: tts_env

text \<open>
  The calls one pass makes.  \<open>Record\<close> carries the values of \<^verbatim>\<open>turn_count\<close> and
  \<^verbatim>\<open>consecutive_errors\<close> at the moment \<^verbatim>\<open>record_utterance\<close> is invoked;
  \<open>Speak\<close> carries the text and the commands \<^verbatim>\<open>speak\<close> started.
\<close>

datatype loop_event =
    Record int int
  | Transcribe
  | Ask string
  | Speak string "tts_event list"

text \<open>
  One pass through the body of \<^verbatim>\<open>while True\<close>.  The third component is
  \<open>False\<close> when the pass ends the loop (\<^verbatim>\<open>except KeyboardInterrupt: break\<close>).
  \<^verbatim>\<open>except Exception\<close> counts an error and continues.
\<close>

definition turn ::
    "int \<Rightarrow> tts_config \<Rightarrow> turn_env \<Rightarrow> counters \<Rightarrow> loop_event list \<times> counters \<times> bool" where
  "turn MAX_TURNS cfg env st =
     (let st1 = reset_checks MAX_TURNS st;
          ev1 = [Record (turn_count st1) (consecutive_errors st1)]
      in if interrupt env = Some AtRecord then (ev1, st1, False)
         else
           (case recorded env of
              Inl e \<Rightarrow> (ev1, count_error st1, True)
            | Inr None \<Rightarrow> (ev1, st1, True)
            | Inr (Some audio) \<Rightarrow>
                (let ev2 = ev1 @ [Transcribe]
                 in if interrupt env = Some AtTranscribe then (ev2, st1, False)
                    else
                      (case transcript env of
                         Inl e \<Rightarrow> (ev2, count_error st1, True)
                       | Inr text \<Rightarrow>
                           if discards text then (ev2, st1, True)
                           else
                             (let ev3 = ev2 @ [Ask text]
                              in if interrupt env = Some AtAsk then (ev3, st1, False)
                                 else
                                   (case ask_agent (agent env) st1 of
                                      (Inl e, st2) \<Rightarrow> (ev3, count_error st2, True)
                                    | (Inr reply, st2) \<Rightarrow>
                                        if interrupt env = Some AtSpeak
                                        then (ev3 @ [Speak reply []], st2, False)
                                        else
                                          (case speak cfg (tts env) reply of
                                             (Some e, tev) \<Rightarrow>
                                               (ev3 @ [Speak reply tev], count_error st2, True)
                                           | (None, tev) \<Rightarrow>
                                               (ev3 @ [Speak reply tev], st2, True))))))))"

text \<open>
  The loop, run on the passes the outside world provides.  The loop has no exit but
  the interrupt; the result is the trace of calls and the counters reached so far.
\<close>

fun main_loop ::
    "int \<Rightarrow> tts_config \<Rightarrow> turn_env list \<Rightarrow> counters \<Rightarrow> loop_event list \<times> counters" where
  "main_loop MAX_TURNS cfg [] st = ([], st)"
| "main_loop MAX_TURNS cfg (env # envs) st =
     (case turn MAX_TURNS cfg env st of
        (evs, st', go) \<Rightarrow>
          if go then
            (case main_loop MAX_TURNS cfg envs st' of
               (evs', st'') \<Rightarrow> (evs @ evs', st''))
          else (evs, st'))"

definition counters_init :: counters where
  "counters_init = \<lparr>turn_count = 0, consecutive_errors = 0\<rparr>"

text \<open>Passes used in the examples below.\<close>

definition too_short_env :: turn_env where
  "too_short_env =
     \<lparr>interrupt = None, recorded = Inr None, transcript = Inr [],
      agent = Raised TimeoutExpired, tts = empty_file_env\<rparr>"

definition agent_timeout_env :: turn_env where
  "agent_timeout_env =
     \<lparr>interrupt = None, recorded = Inr (Some loud_block), transcript = Inr ''hello'',
      agent = Raised TimeoutExpired, tts = empty_file_env\<rparr>"

definition hallucination_env :: turn_env where
  "hallucination_env =
     \<lparr>interrupt = None, recorded = Inr (Some loud_block), transcript = Inr ''Thank You.'',
      agent = Raised TimeoutExpired, tts = empty_file_env\<rparr>"

fun is_ask_or_speak :: "loop_event \<Rightarrow> bool" where
  "is_ask_or_speak (Ask t) = True"
| "is_ask_or_speak (Speak t evs) = True"
| "is_ask_or_speak _ = False"

section \<open>Properties\<close>

subsection \<open>Facts about the string operations\<close>

lemma rfind_absent: "c \<notin> set s \<Longrightarrow> rfind s [c] = -1"
  by (induction s) (auto simp: startswith_def)

lemma rfind_hit:
  "0 \<le> rfind s [c] \<Longrightarrow> nat (rfind s [c]) < length s \<and> s ! nat (rfind s [c]) = c"
proof (induction s)
  case Nil
  then show ?case by simp
next
  case (Cons a s)
  show ?case
  proof (cases "0 \<le> rfind s [c]")
    case True
    then have "nat (rfind s [c] + 1) = Suc (nat (rfind s [c]))" by simp
    with True Cons.IH show ?thesis by simp
  next
    case False
    with Cons.prems have "a = c"
      by (simp add: startswith_def split: if_splits)
    with False show ?thesis by (simp add: startswith_def)
  qed
qed

lemma rfind_last_occurrence:
  assumes "i < length s" and "s ! i = c"
    and "\<forall>j. i < j \<and> j < length s \<longrightarrow> s ! j \<noteq> c"
  shows "rfind s [c] = int i"
  using assms
proof (induction s arbitrary: i)
  case Nil
  then show ?case by simp
next
  case (Cons a s)
  show ?case
  proof (cases i)
    case 0
    have "c \<notin> set s"
    proof
      assume "c \<in> set s"
      then obtain k where "k < length s" and "s ! k = c"
        by (auto simp: in_set_conv_nth)
      with Cons.prems(3) [rule_format, of "Suc k"] 0 show False by simp
    qed
    then have "rfind s [c] = -1" by (rule rfind_absent)
    with 0 Cons.prems show ?thesis by (simp add: startswith_def)
  next
    case (Suc k)
    have "rfind s [c] = int k"
    proof (rule Cons.IH)
      show "k < length s" using Cons.prems Suc by simp
      show "s ! k = c" using Cons.prems Suc by simp
      show "\<forall>j. k < j \<and> j < length s \<longrightarrow> s ! j \<noteq> c"
      proof (intro allI impI)
        fix j
        assume "k < j \<and> j < length s"
        with Cons.prems(3) [rule_format, of "Suc j"] Suc show "s ! j \<noteq> c" by simp
      qed
    qed
    with Suc show ?thesis by simp
  qed
qed

lemma length_str_replace_le: "length (str_replace old [] s) \<le> length s"
  by (induction old "[] :: string" s rule: str_replace.induct) (auto simp: startswith_def)

lemma length_fold_replace_le:
  "length (fold (\<lambda>ch r. str_replace ch [] r) ms s) \<le> length s"
proof (induction ms arbitrary: s)
  case Nil
  show ?case by simp
next
  case (Cons m ms)
  have "length (fold (\<lambda>ch r. str_replace ch [] r) ms (str_replace m [] s))
          \<le> length (str_replace m [] s)"
    by (rule Cons.IH)
  also have "\<dots> \<le> length s" by (rule length_str_replace_le)
  finally show ?case by simp
qed

lemma length_strip_markdown_le: "length (strip_markdown s) \<le> length s"
  unfolding strip_markdown_def by (rule length_fold_replace_le)

lemma length_truncate_reply_le: "length (truncate_reply reply) \<le> MAX_REPLY_CHARS + 3"
  by (auto simp: truncate_reply_def Let_def)

lemma truncate_reply_no_period:
  assumes "length reply > MAX_REPLY_CHARS"
    and "CHR ''.'' \<notin> set (take MAX_REPLY_CHARS reply)"
  shows "truncate_reply reply = take MAX_REPLY_CHARS reply @ ''...''"
  using assms by (simp add: truncate_reply_def rfind_absent)

lemma str_replace_head_absent:
  "old \<noteq> [] \<Longrightarrow> hd old \<notin> set s \<Longrightarrow> str_replace old new s = s"
  by (induction s) (auto simp: startswith_def neq_Nil_conv)

lemma str_replace_absent:
  "old \<noteq> [] \<Longrightarrow> \<not> contains s old \<Longrightarrow> str_replace old new s = s"
  by (induction s) auto

lemma fold_replace_absent:
  "\<forall>m \<in> set ms. m \<noteq> [] \<and> \<not> contains s m \<Longrightarrow>
     fold (\<lambda>ch r. str_replace ch new r) ms s = s"
  by (induction ms) (auto simp: str_replace_absent)

lemma length_str_replace_less:
  "old \<noteq> [] \<Longrightarrow> contains s old \<Longrightarrow> length (str_replace old [] s) < length s"
proof (induction s)
  case Nil
  then show ?case by simp
next
  case (Cons c cs)
  show ?case
  proof (cases "startswith (c # cs) old")
    case True
    have "length (str_replace old [] (drop (length old - 1) cs)) \<le> length (drop (length old - 1) cs)"
      by (rule length_str_replace_le)
    also have "\<dots> \<le> length cs" by simp
    finally show ?thesis using True Cons.prems(1) by simp
  next
    case False
    with Cons.prems have "contains cs old" by simp
    with Cons.prems(1) have "length (str_replace old [] cs) < length cs" by (rule Cons.IH)
    with False Cons.prems(1) show ?thesis by simp
  qed
qed

lemma length_fold_replace_less:
  "\<forall>m \<in> set ms. m \<noteq> [] \<Longrightarrow> \<exists>m \<in> set ms. contains s m \<Longrightarrow>
     length (fold (\<lambda>ch r. str_replace ch [] r) ms s) < length s"
proof (induction ms arbitrary: s)
  case Nil
  then show ?case by simp
next
  case (Cons m ms)
  show ?case
  proof (cases "contains s m")
    case True
    have "length (fold (\<lambda>ch r. str_replace ch [] r) ms (str_replace m [] s))
            \<le> length (str_replace m [] s)"
      by (rule length_fold_replace_le)
    also have "\<dots> < length s" using Cons.prems(1) True by (simp add: length_str_replace_less)
    finally show ?thesis by simp
  next
    case False
    with Cons.prems(1) have same: "str_replace m [] s = s" by (simp add: str_replace_absent)
    from False Cons.prems(2) have "\<exists>m \<in> set ms. contains s m" by auto
    moreover from Cons.prems(1) have "\<forall>m \<in> set ms. m \<noteq> []" by simp
    ultimately have "length (fold (\<lambda>ch r. str_replace ch [] r) ms s) < length s"
      by (intro Cons.IH)
    with same show ?thesis by simp
  qed
qed

lemma strip_markdown_plain:
  assumes "CHR ''*'' \<notin> set s" and "CHR 0x60 \<notin> set s" and "CHR ''-'' \<notin> set s"
  shows "strip_markdown s = s"
  using assms by (simp add: strip_markdown_def markers_def str_replace_head_absent)

lemma py_strip_tight:
  assumes "s \<noteq> []" and "\<not> py_isspace (hd s)" and "\<not> py_isspace (last s)"
  shows "py_strip s = s"
proof -
  have "dropWhile py_isspace s = s" using assms by (simp add: dropWhile_eq_self_iff)
  moreover have "dropWhile py_isspace (rev s) = rev s"
    using assms by (simp add: dropWhile_eq_self_iff hd_rev)
  ultimately show ?thesis by (simp add: py_strip_def)
qed

subsection \<open>Agent client\<close>

text \<open>What \<^verbatim>\<open>ask_agent\<close> does on the outcomes its handlers cover.\<close>

lemma ask_agent_timeout:
  "ask_agent (Raised TimeoutExpired) st
     = (Inr ''Sorry, that took too long. Try again.'', count_error st)"
  by (simp add: ask_agent_def)

lemma ask_agent_nonzero:
  "rc \<noteq> 0 \<Longrightarrow> ask_agent (Completed rc err parsed) st
     = (Inr ''Sorry, I hit an error. Try again.'', count_error st)"
  by (simp add: ask_agent_def)

lemma ask_agent_empty:
  "parse_reply parsed = Inr [] \<Longrightarrow> ask_agent (Completed 0 err parsed) st
     = (Inr ''I processed that but had nothing to say.'', count_error st)"
  by (simp add: ask_agent_def)

lemma ask_agent_undecodable:
  "ask_agent (Completed 0 err None) st
     = (Inr ''Sorry, something went wrong parsing the response.'', count_error st)"
  by (simp add: ask_agent_def parse_reply_def)

lemma ask_agent_success:
  "parse_reply parsed = Inr reply \<Longrightarrow> reply \<noteq> [] \<Longrightarrow>
   ask_agent (Completed 0 err parsed) st
     = (Inr (strip_markdown (truncate_reply reply)),
        st\<lparr>turn_count := turn_count st + 1, consecutive_errors := 0\<rparr>)"
  by (simp add: ask_agent_def)

lemma parse_long_reply: "parse_reply (Some long_reply_json) = Inr (replicate 600 CHR ''a'')"
proof -
  have "py_strip (replicate 600 CHR ''a'') = replicate 600 CHR ''a''"
    by (rule py_strip_tight) (simp_all add: py_isspace_def)
  then show ?thesis by (simp add: parse_reply_def long_reply_json_def)
qed

lemma shape_long_reply:
  "strip_markdown (truncate_reply (replicate 600 CHR ''a'')) = replicate 500 CHR ''a'' @ ''...''"
proof -
  have "truncate_reply (replicate 600 CHR ''a'') = replicate 500 CHR ''a'' @ ''...''"
    using truncate_reply_no_period [of "replicate 600 CHR ''a''"]
    by (simp add: MAX_REPLY_CHARS_def)
  moreover have "strip_markdown (replicate 500 CHR ''a'' @ ''...'')
                   = replicate 500 CHR ''a'' @ ''...''"
    by (rule strip_markdown_plain) simp_all
  ultimately show ?thesis by simp
qed

text \<open>
  Claim C1 says that \<^verbatim>\<open>ask_agent\<close> never raises and turns malformed structured
  output into a canned reply and a counted error.  The handler of the second
  \<^verbatim>\<open>try\<close> names \<^verbatim>\<open>JSONDecodeError\<close>, \<^verbatim>\<open>KeyError\<close> and \<^verbatim>\<open>IndexError\<close> only.
  On the well-formed JSON document \<^verbatim>\<open>{"result": null}\<close>, delivered with return
  code 0, the expression \<^verbatim>\<open>data.get("result", {}).get("payloads", [])\<close> calls
  \<^verbatim>\<open>get\<close> on \<^verbatim>\<open>None\<close>: \<^verbatim>\<open>AttributeError\<close> leaves \<^verbatim>\<open>ask_agent\<close>, no reply is
  returned and \<^verbatim>\<open>ask_agent\<close> itself counts no error.
\<close>

theorem ask_agent_raises_on_null_result:
  "ask_agent (Completed 0 [] (Some (JObj [(''result'', JNull)])))
             \<lparr>turn_count = 0, consecutive_errors = 0\<rparr>
     = (Inl AttributeError, \<lparr>turn_count = 0, consecutive_errors = 0\<rparr>)"
  by (simp add: ask_agent_def parse_reply_def)

text \<open>
  Claim C3: for a reply longer than \<^const>\<open>MAX_REPLY_CHARS\<close> (500) characters, if the
  last period among the first 500 characters is at an index \<open>i\<close> past the halfway
  point (\<open>250 < i\<close>), truncation returns the first \<open>i + 1\<close> characters, the prefix that
  ends with that period; if no period lies past the halfway point, truncation returns
  the first 500 characters followed by \<open>...\<close>.
\<close>

theorem truncate_reply_cut:
  assumes long: "length reply > MAX_REPLY_CHARS"
  shows "(\<forall>i. MAX_REPLY_CHARS div 2 < i \<and> i < MAX_REPLY_CHARS \<and> reply ! i = CHR ''.'' \<and>
              (\<forall>j. i < j \<and> j < MAX_REPLY_CHARS \<longrightarrow> reply ! j \<noteq> CHR ''.'')
            \<longrightarrow> truncate_reply reply = take (i + 1) reply) \<and>
         ((\<forall>j. MAX_REPLY_CHARS div 2 < j \<and> j < MAX_REPLY_CHARS \<longrightarrow> reply ! j \<noteq> CHR ''.'')
            \<longrightarrow> truncate_reply reply = take MAX_REPLY_CHARS reply @ ''...'')"
proof (intro conjI allI impI)
  fix i
  assume h: "MAX_REPLY_CHARS div 2 < i \<and> i < MAX_REPLY_CHARS \<and> reply ! i = CHR ''.'' \<and>
             (\<forall>j. i < j \<and> j < MAX_REPLY_CHARS \<longrightarrow> reply ! j \<noteq> CHR ''.'')"
  let ?t = "take MAX_REPLY_CHARS reply"
  have len: "length ?t = MAX_REPLY_CHARS" using long by simp
  have "rfind ?t [CHR ''.''] = int i"
  proof (rule rfind_last_occurrence)
    show "i < length ?t" using h len by simp
    show "?t ! i = CHR ''.''" using h by simp
    show "\<forall>j. i < j \<and> j < length ?t \<longrightarrow> ?t ! j \<noteq> CHR ''.''" using h len by simp
  qed
  moreover have "take (nat (int i + 1)) ?t = take (i + 1) reply"
    using h by (simp add: min_def nat_add_distrib)
  ultimately show "truncate_reply reply = take (i + 1) reply"
    using long h by (simp add: truncate_reply_def)
next
  assume h: "\<forall>j. MAX_REPLY_CHARS div 2 < j \<and> j < MAX_REPLY_CHARS \<longrightarrow> reply ! j \<noteq> CHR ''.''"
  let ?t = "take MAX_REPLY_CHARS reply"
  let ?r = "rfind ?t [CHR ''.'']"
  have len: "length ?t = MAX_REPLY_CHARS" using long by simp
  have "\<not> ?r > int (MAX_REPLY_CHARS div 2)"
  proof
    assume gt: "?r > int (MAX_REPLY_CHARS div 2)"
    then have "0 \<le> ?r" by simp
    then have hit: "nat ?r < length ?t \<and> ?t ! nat ?r = CHR ''.''" by (rule rfind_hit)
    from gt have "MAX_REPLY_CHARS div 2 < nat ?r" by simp
    moreover from hit len have lt: "nat ?r < MAX_REPLY_CHARS" by simp
    moreover from lt have "?t ! nat ?r = reply ! nat ?r" by simp
    with hit have "reply ! nat ?r = CHR ''.''" by simp
    ultimately show False using h by blast
  qed
  then show "truncate_reply reply = take MAX_REPLY_CHARS reply @ ''...''"
    using long by (simp add: truncate_reply_def Let_def)
qed

text \<open>
  The two examples of the specification: 600 characters with the only period at index
  480 give the first 481 characters; 600 characters without a period give the first
  500 characters and the ellipsis.
\<close>

theorem truncate_reply_cut_witness:
  "length (replicate 480 CHR ''a'' @ ''.'' @ replicate 119 CHR ''b'') = 600 \<and>
   truncate_reply (replicate 480 CHR ''a'' @ ''.'' @ replicate 119 CHR ''b'')
     = replicate 480 CHR ''a'' @ ''.'' \<and>
   length (replicate 480 CHR ''a'' @ ''.'') = 481 \<and>
   truncate_reply (replicate 600 CHR ''a'') = replicate 500 CHR ''a'' @ ''...''"
proof -
  let ?s = "replicate 480 CHR ''a'' @ ''.'' @ replicate 119 CHR ''b''"
  have "length ?s > MAX_REPLY_CHARS" by (simp add: MAX_REPLY_CHARS_def)
  from truncate_reply_cut [OF this]
  have "MAX_REPLY_CHARS div 2 < 480 \<and> 480 < MAX_REPLY_CHARS \<and> ?s ! 480 = CHR ''.'' \<and>
        (\<forall>j. 480 < j \<and> j < MAX_REPLY_CHARS \<longrightarrow> ?s ! j \<noteq> CHR ''.'')
        \<longrightarrow> truncate_reply ?s = take (480 + 1) ?s"
    by blast
  moreover have "?s ! 480 = CHR ''.''" by (simp add: nth_append)
  moreover have "\<forall>j. 480 < j \<and> j < MAX_REPLY_CHARS \<longrightarrow> ?s ! j \<noteq> CHR ''.''"
    by (auto simp: nth_append MAX_REPLY_CHARS_def nth_Cons')
  ultimately have a: "truncate_reply ?s = replicate 480 CHR ''a'' @ ''.''"
    by (simp add: MAX_REPLY_CHARS_def)
  let ?u = "replicate 600 CHR ''a''"
  have "length ?u > MAX_REPLY_CHARS" by (simp add: MAX_REPLY_CHARS_def)
  from truncate_reply_cut [OF this]
  have "(\<forall>j. MAX_REPLY_CHARS div 2 < j \<and> j < MAX_REPLY_CHARS \<longrightarrow> ?u ! j \<noteq> CHR ''.'')
        \<longrightarrow> truncate_reply ?u = take MAX_REPLY_CHARS ?u @ ''...''"
    by blast
  moreover have "\<forall>j. MAX_REPLY_CHARS div 2 < j \<and> j < MAX_REPLY_CHARS \<longrightarrow> ?u ! j \<noteq> CHR ''.''"
    by (simp add: MAX_REPLY_CHARS_def)
  ultimately have b: "truncate_reply ?u = replicate 500 CHR ''a'' @ ''...''"
    by (simp add: MAX_REPLY_CHARS_def)
  from a b show ?thesis by simp
qed

text \<open>
  Claim C4 bounds the shaped reply by \<^const>\<open>MAX_REPLY_CHARS\<close>.  The hard cut appends
  the three characters of the ellipsis after the first 500, so the bound that holds is
  \<open>MAX_REPLY_CHARS + 3\<close>.  Claim C4, amended: every text that \<^verbatim>\<open>ask_agent\<close> returns
  has at most \<open>MAX_REPLY_CHARS + 3\<close> characters.
\<close>

theorem ask_agent_reply_bound:
  assumes "fst (ask_agent out st) = Inr r"
  shows "length r \<le> MAX_REPLY_CHARS + 3"
proof -
  have shaped: "length (strip_markdown (truncate_reply reply)) \<le> MAX_REPLY_CHARS + 3" for reply
    using length_strip_markdown_le [of "truncate_reply reply"] length_truncate_reply_le [of reply]
    by (rule order_trans)
  show ?thesis
  proof (cases out)
    case (Raised e)
    with assms show ?thesis
      by (auto simp: ask_agent_def MAX_REPLY_CHARS_def split: if_splits)
  next
    case (Completed rc err parsed)
    show ?thesis
    proof (cases "parse_reply parsed")
      case (Inl e)
      with assms Completed show ?thesis
        by (auto simp: ask_agent_def MAX_REPLY_CHARS_def split: if_splits)
    next
      case (Inr reply)
      with assms Completed shaped [of reply] show ?thesis
        by (auto simp: ask_agent_def MAX_REPLY_CHARS_def split: if_splits)
    qed
  qed
qed

text \<open>The bound is reached: a reply of 600 letters comes back with 503 characters.\<close>

theorem ask_agent_reply_bound_witness:
  "fst (ask_agent (Completed 0 [] (Some long_reply_json)) counters_init)
     = Inr (replicate 500 CHR ''a'' @ ''...'') \<and>
   length (replicate 500 CHR ''a'' @ ''...'') \<le> MAX_REPLY_CHARS + 3"
proof -
  have e: "fst (ask_agent (Completed 0 [] (Some long_reply_json)) counters_init)
             = Inr (replicate 500 CHR ''a'' @ ''...'')"
    by (simp add: ask_agent_def parse_long_reply shape_long_reply)
  from e ask_agent_reply_bound [OF e] show ?thesis by simp
qed

text \<open>Claim C4 as stated fails on that reply: 503 characters exceed the budget.\<close>

theorem ask_agent_reply_exceeds_budget:
  "fst (ask_agent (Completed 0 [] (Some long_reply_json)) counters_init)
     = Inr (replicate 500 CHR ''a'' @ ''...'') \<and>
   \<not> length (replicate 500 CHR ''a'' @ ''...'') \<le> MAX_REPLY_CHARS"
  by (simp add: ask_agent_def parse_long_reply shape_long_reply MAX_REPLY_CHARS_def)

text \<open>
  Claim C6 says that stripping twice equals stripping once.  Removing one marker can
  bring the two halves of another together, so this does not hold for every text.
  Claim C6, amended: stripping twice equals stripping once exactly when the text
  stripped once contains none of the five markers.
\<close>

theorem strip_markdown_idempotent_iff_clean:
  "strip_markdown (strip_markdown s) = strip_markdown s
     \<longleftrightarrow> (\<forall>m \<in> set markers. \<not> contains (strip_markdown s) m)"
proof
  assume idem: "strip_markdown (strip_markdown s) = strip_markdown s"
  show "\<forall>m \<in> set markers. \<not> contains (strip_markdown s) m"
  proof (rule ccontr)
    assume "\<not> (\<forall>m \<in> set markers. \<not> contains (strip_markdown s) m)"
    then have "\<exists>m \<in> set markers. contains (strip_markdown s) m" by simp
    moreover have "\<forall>m \<in> set markers. m \<noteq> []" by (simp add: markers_def)
    ultimately have "length (fold (\<lambda>ch r. str_replace ch [] r) markers (strip_markdown s))
                       < length (strip_markdown s)"
      by (intro length_fold_replace_less)
    then have "length (strip_markdown (strip_markdown s)) < length (strip_markdown s)"
      by (simp add: strip_markdown_def [of "strip_markdown s"])
    with idem show False by simp
  qed
next
  assume clean: "\<forall>m \<in> set markers. \<not> contains (strip_markdown s) m"
  then have "\<forall>m \<in> set markers. m \<noteq> [] \<and> \<not> contains (strip_markdown s) m"
    by (simp add: markers_def)
  then have "fold (\<lambda>ch r. str_replace ch [] r) markers (strip_markdown s) = strip_markdown s"
    by (rule fold_replace_absent)
  then show "strip_markdown (strip_markdown s) = strip_markdown s"
    by (simp add: strip_markdown_def [of "strip_markdown s"])
qed

text \<open>A reply with bold and inline-code markers is clean after one pass.\<close>

theorem strip_markdown_idempotent_iff_clean_witness:
  "strip_markdown ''**Sunny** and `warm`'' = ''Sunny and warm'' \<and>
   list_all (\<lambda>m. \<not> contains (strip_markdown ''**Sunny** and `warm`'') m) markers \<and>
   strip_markdown (strip_markdown ''**Sunny** and `warm`'') = strip_markdown ''**Sunny** and `warm`''"
proof -
  have v: "strip_markdown ''**Sunny** and `warm`'' = ''Sunny and warm''"
    by (simp add: strip_markdown_def markers_def startswith_def)
  have h: "\<forall>m \<in> set markers. \<not> contains (strip_markdown ''**Sunny** and `warm`'') m"
    unfolding v by (simp add: markers_def startswith_def)
  from h strip_markdown_idempotent_iff_clean [of "''**Sunny** and `warm`''"]
  have "strip_markdown (strip_markdown ''**Sunny** and `warm`'') = strip_markdown ''**Sunny** and `warm`''"
    by blast
  with v h show ?thesis by (simp add: list_all_iff)
qed

text \<open>
  Claim C6 as stated fails on \<^verbatim>\<open>*`*\<close>: removing the backtick leaves \<^verbatim>\<open>**\<close>, which
  the second pass removes.
\<close>

theorem strip_markdown_not_idempotent:
  "strip_markdown ''*`*'' = ''**'' \<and> strip_markdown (strip_markdown ''*`*'') = [] \<and>
   strip_markdown (strip_markdown ''*`*'') \<noteq> strip_markdown ''*`*''"
  by (simp add: strip_markdown_def markers_def startswith_def)

subsection \<open>Utterance recorder\<close>

lemma record_loop_after:
  "recorder_after threshold st pre = Some st' \<Longrightarrow>
   record_loop threshold st (pre @ rest) = record_loop threshold st' rest"
proof (induction pre arbitrary: st)
  case Nil
  then show ?case by simp
next
  case (Cons b pre)
  obtain st1 brk where step: "frame_step threshold st b = (st1, brk)"
    by (cases "frame_step threshold st b") auto
  with Cons.prems have nb: "\<not> brk" and after: "recorder_after threshold st1 pre = Some st'"
    by (auto split: bool.splits)
  from after have "record_loop threshold st1 (pre @ rest) = record_loop threshold st' rest"
    by (rule Cons.IH)
  with step nb show ?case by simp
qed

text \<open>Once speech has started, at least one block has been appended.\<close>

lemma frame_step_chunks:
  assumes "speech_started st \<longrightarrow> audio_chunks st \<noteq> []"
    and "frame_step threshold st b = (st', brk)"
  shows "speech_started st' \<longrightarrow> audio_chunks st' \<noteq> []"
  using assms by (auto simp: frame_step_def Let_def split: if_splits option.splits)

lemma recorder_after_chunks:
  "speech_started st \<longrightarrow> audio_chunks st \<noteq> [] \<Longrightarrow>
   recorder_after threshold st pre = Some st' \<Longrightarrow>
   speech_started st' \<longrightarrow> audio_chunks st' \<noteq> []"
proof (induction pre arbitrary: st)
  case Nil
  then show ?case by simp
next
  case (Cons b pre)
  obtain st1 brk where step: "frame_step threshold st b = (st1, brk)"
    by (cases "frame_step threshold st b") auto
  with Cons.prems(2) have after: "recorder_after threshold st1 pre = Some st'"
    by (auto split: bool.splits)
  from Cons.prems(1) step have "speech_started st1 \<longrightarrow> audio_chunks st1 \<noteq> []"
    by (rule frame_step_chunks)
  then show ?case using after by (rule Cons.IH)
qed

lemma recorder_after_example_prefix:
  "recorder_after (1/128) recorder_init example_prefix = Some trailing_state"
  apply (simp add: example_prefix_def recorder_init_def frame_step_def
      SILENCE_DURATION_def upt_rec [of 1])
  apply (simp add: eval_nat_numeral upt_rec frame_step_def SILENCE_DURATION_def
      trailing_state_def)
  done

lemma trailing_state_duration:
  "length (concat (audio_chunks trailing_state)) = 22400"
  by (simp add: trailing_state_def loud_block_def quiet_block_def length_concat
      sum_list_replicate)

text \<open>
  Claim C5 says that the silence block that ends the recording is appended before the
  loop stops.  The \<^verbatim>\<open>break\<close> of line 108 leaves the loop before the
  \<^verbatim>\<open>append\<close> of line 111 is reached.  Claim C5, amended: when a silence block
  arrives while the silence timer is running and more than \<^const>\<open>SILENCE_DURATION\<close>
  has elapsed since the timer started, recording stops at once with the recorder
  unchanged: that last block is not appended, and \<^verbatim>\<open>record_utterance\<close> returns
  what the blocks accumulated before it give, their concatenation, or \<^verbatim>\<open>None\<close>
  when that is shorter than \<^const>\<open>MIN_SPEECH_DURATION\<close>.
\<close>

theorem terminal_transition_drops_frame:
  assumes "recorder_after threshold recorder_init pre = Some st"
    and "speech_started st" and "silence_start st = Some t0"
    and "\<not> level b > threshold" and "clock b - t0 > SILENCE_DURATION"
  shows "frame_step threshold st b = (st, True) \<and>
         record_loop threshold recorder_init (pre @ b # rest) = Some st \<and>
         record_utterance threshold (pre @ b # rest) =
           Some (if real (length (concat (audio_chunks st))) / real SAMPLE_RATE
                      < MIN_SPEECH_DURATION
                 then Inr None
                 else Inr (Some (concat (audio_chunks st))))"
proof -
  have step: "frame_step threshold st b = (st, True)"
    using assms(2-5) by (simp add: frame_step_def)
  have "record_loop threshold recorder_init (pre @ b # rest)
          = record_loop threshold st (b # rest)"
    using assms(1) by (rule record_loop_after)
  with step have loop: "record_loop threshold recorder_init (pre @ b # rest) = Some st"
    by simp
  have "speech_started recorder_init \<longrightarrow> audio_chunks recorder_init \<noteq> []"
    by (simp add: recorder_init_def)
  from this assms(1) have "speech_started st \<longrightarrow> audio_chunks st \<noteq> []"
    by (rule recorder_after_chunks)
  with assms(2) have "audio_chunks st \<noteq> []" by simp
  then have "finish_recording st =
           (if real (length (concat (audio_chunks st))) / real SAMPLE_RATE
                 < MIN_SPEECH_DURATION
            then Inr None
            else Inr (Some (concat (audio_chunks st))))"
    by (simp add: finish_recording_def Let_def)
  with loop have "record_utterance threshold (pre @ b # rest) =
           Some (if real (length (concat (audio_chunks st))) / real SAMPLE_RATE
                      < MIN_SPEECH_DURATION
                 then Inr None
                 else Inr (Some (concat (audio_chunks st))))"
    by (simp add: record_utterance_def)
  with step loop show ?thesis by simp
qed

text \<open>
  On \<^const>\<open>example_stream\<close> the recording stops at the block of time \<open>14/8\<close> and
  returns the fourteen blocks before it, 1.4 seconds of audio.
\<close>

theorem terminal_transition_drops_frame_witness:
  "recorder_after (1/128) recorder_init example_prefix = Some trailing_state \<and>
   speech_started trailing_state \<and> silence_start trailing_state = Some (1/8) \<and>
   \<not> level final_block > 1/128 \<and> clock final_block - 1/8 > SILENCE_DURATION \<and>
   frame_step (1/128) trailing_state final_block = (trailing_state, True) \<and>
   record_utterance (1/128) example_stream
     = Some (Inr (Some (concat (loud_block # replicate 13 quiet_block)))) \<and>
   last_block \<notin> set (audio_chunks trailing_state)"
proof -
  have h: "speech_started trailing_state" "silence_start trailing_state = Some (1/8)"
    "\<not> level final_block > 1/128" "clock final_block - 1/8 > SILENCE_DURATION"
    by (simp_all add: trailing_state_def final_block_def SILENCE_DURATION_def)
  note t = terminal_transition_drops_frame [OF recorder_after_example_prefix h, of "[]"]
  from t have s: "frame_step (1/128) trailing_state final_block = (trailing_state, True)"
    by simp
  have short: "\<not> real (length (concat (audio_chunks trailing_state))) / real SAMPLE_RATE
                   < MIN_SPEECH_DURATION"
    by (simp add: trailing_state_duration SAMPLE_RATE_def MIN_SPEECH_DURATION_def)
  from t have "record_utterance (1/128) (example_prefix @ [final_block]) =
           Some (if real (length (concat (audio_chunks trailing_state))) / real SAMPLE_RATE
                      < MIN_SPEECH_DURATION
                 then Inr None
                 else Inr (Some (concat (audio_chunks trailing_state))))"
    by simp
  with short have "record_utterance (1/128) (example_prefix @ [final_block]) =
           Some (Inr (Some (concat (audio_chunks trailing_state))))"
    by simp
  then have r: "record_utterance (1/128) example_stream
     = Some (Inr (Some (concat (loud_block # replicate 13 quiet_block))))"
    by (simp add: example_stream_def trailing_state_def)
  have n: "last_block \<notin> set (audio_chunks trailing_state)"
    by (simp add: trailing_state_def loud_block_def quiet_block_def last_block_def)
  from recorder_after_example_prefix h s r n show ?thesis by simp
qed

text \<open>
  Claim C5 as stated fails on \<^const>\<open>example_stream\<close>: the utterance returned is the
  loud block and the thirteen quiet blocks, 22400 samples; with the last block
  appended it would have 24000.
\<close>

theorem final_silence_block_not_appended:
  "record_utterance (1/128) example_stream
     = Some (Inr (Some (concat (loud_block # replicate 13 quiet_block)))) \<and>
   concat (loud_block # replicate 13 quiet_block)
     \<noteq> concat (loud_block # replicate 13 quiet_block @ [last_block])"
proof -
  have "frame_step (1/128) trailing_state final_block = (trailing_state, True)"
    by (simp add: frame_step_def trailing_state_def final_block_def SILENCE_DURATION_def)
  then have "record_loop (1/128) recorder_init example_stream = Some trailing_state"
    by (simp add: example_stream_def record_loop_after [OF recorder_after_example_prefix])
  then have "record_utterance (1/128) example_stream
          = Some (Inr (Some (concat (audio_chunks trailing_state))))"
    using trailing_state_duration
    by (simp add: record_utterance_def finish_recording_def SAMPLE_RATE_def
        MIN_SPEECH_DURATION_def Let_def trailing_state_def [THEN arg_cong, of audio_chunks]
        del: concat.simps)
  then have "record_utterance (1/128) example_stream
          = Some (Inr (Some (concat (loud_block # replicate 13 quiet_block))))"
    by (simp add: trailing_state_def)
  moreover have "concat (loud_block # replicate 13 quiet_block)
     \<noteq> concat (loud_block # replicate 13 quiet_block @ [last_block])"
  proof
    assume "concat (loud_block # replicate 13 quiet_block)
              = concat (loud_block # replicate 13 quiet_block @ [last_block])"
    then have "length (concat (loud_block # replicate 13 quiet_block))
                 = length (concat (loud_block # replicate 13 quiet_block @ [last_block]))"
      by (rule arg_cong)
    then show False by (simp add: last_block_def)
  qed
  ultimately show ?thesis by simp
qed

subsection \<open>Transcription adapter\<close>

lemma transcribe_success_removes:
  "transcribe tmp load_error (Inr t) st = (Inr r, st') \<Longrightarrow> tmp \<notin> files st'"
  by (auto simp: transcribe_def Let_def split: if_splits option.splits)

text \<open>
  Claim C7 says that the temporary audio file is gone after every call of
  \<^verbatim>\<open>transcribe\<close>, also when the engine raises.  \<^verbatim>\<open>os.unlink(tmp)\<close> is the
  statement after the engine call and is not in a \<^verbatim>\<open>finally\<close> block (the two
  cloud speech functions of the same module do remove their files in one): when the
  engine raises, the exception leaves \<^verbatim>\<open>transcribe\<close> and the file stays.
\<close>

theorem transcribe_leaks_on_engine_failure:
  "transcribe ''/tmp/tmpx.wav'' None (Inl RuntimeError) \<lparr>model_loaded = True, files = {}\<rparr>
     = (Inl RuntimeError, \<lparr>model_loaded = True, files = {''/tmp/tmpx.wav''}\<rparr>)"
  by (simp add: transcribe_def)

subsection \<open>Speech synthesis router\<close>

lemma speak_macos_result: "speak_macos env text = (None, [Say text])"
  by (simp add: speak_macos_def split: option.splits)

lemma elevenlabs_try_cases:
  "elevenlabs_try cfg env text =
     (if curl_error env \<noteq> None then (curl_error env, [Request ElevenLabs])
      else if missing_or_below (raw_size env) 1000 then (None, [Request ElevenLabs, Say text])
      else if ELEVENLABS_SPEED cfg \<noteq> 1 then
        (if ffmpeg_error env \<noteq> None then (ffmpeg_error env, [Request ElevenLabs, Ffmpeg])
         else (afplay_error env,
               [Request ElevenLabs, Ffmpeg,
                Afplay (if exists_and_above (fast_size env) 500 then fast_path else raw_path)]))
      else (afplay_error env, [Request ElevenLabs, Afplay raw_path]))"
  by (auto simp: elevenlabs_try_def speak_macos_result split: option.splits)

lemma openai_try_cases:
  "openai_try env text =
     (if curl_error env \<noteq> None then (curl_error env, [Request OpenAI])
      else if missing_or_below (raw_size env) 1000 then (None, [Request OpenAI, Say text])
      else (afplay_error env, [Request OpenAI, Afplay raw_path]))"
  by (auto simp: openai_try_def speak_macos_result split: option.splits)

lemma speak_no_exception: "fst (speak cfg env text) = None"
  by (auto simp: speak_def speak_elevenlabs_def speak_openai_def speak_macos_result
      split: prod.splits option.splits)

lemma speak_requests:
  "filter is_request (snd (speak cfg env text)) =
     (if ELEVENLABS_API_KEY cfg \<noteq> [] then [Request ElevenLabs]
      else if OPENAI_API_KEY cfg \<noteq> [] then [Request OpenAI]
      else [])"
  by (auto simp: speak_def speak_elevenlabs_def speak_openai_def speak_macos_result
      elevenlabs_try_cases openai_try_cases split: prod.splits option.splits if_splits)

lemma speak_local_only:
  "ELEVENLABS_API_KEY cfg = [] \<Longrightarrow> OPENAI_API_KEY cfg = [] \<Longrightarrow>
   snd (speak cfg env text) = [Say text]"
  by (simp add: speak_def speak_macos_result)

lemma speak_say_once: "length (filter is_say (snd (speak cfg env text))) \<le> 1"
  by (auto simp: speak_def speak_elevenlabs_def speak_openai_def speak_macos_result
      elevenlabs_try_cases openai_try_cases split: prod.splits option.splits if_splits)

lemma speak_undersized:
  "missing_or_below (raw_size env) 1000 \<Longrightarrow>
   filter is_say (snd (speak cfg env text)) = [Say text] \<and>
   filter is_afplay (snd (speak cfg env text)) = []"
  by (auto simp: speak_def speak_elevenlabs_def speak_openai_def speak_macos_result
      elevenlabs_try_cases openai_try_cases split: prod.splits option.splits if_splits)

lemma speak_cloud_ok:
  "ELEVENLABS_API_KEY cfg \<noteq> [] \<or> OPENAI_API_KEY cfg \<noteq> [] \<Longrightarrow>
   curl_error env = None \<Longrightarrow> \<not> missing_or_below (raw_size env) 1000 \<Longrightarrow>
   ffmpeg_error env = None \<Longrightarrow> afplay_error env = None \<Longrightarrow>
   filter is_say (snd (speak cfg env text)) = []"
  by (auto simp: speak_def speak_elevenlabs_def speak_openai_def speak_macos_result
      elevenlabs_try_cases openai_try_cases split: prod.splits option.splits if_splits)

lemma speak_trace:
  "snd (speak cfg env text) =
     (if ELEVENLABS_API_KEY cfg \<noteq> [] then
        Request ElevenLabs #
        (if curl_error env \<noteq> None \<or> missing_or_below (raw_size env) 1000 then [Say text]
         else if ELEVENLABS_SPEED cfg \<noteq> 1 then
           Ffmpeg #
           (if ffmpeg_error env \<noteq> None then [Say text]
            else Afplay (if exists_and_above (fast_size env) 500 then fast_path else raw_path) #
                 (if afplay_error env \<noteq> None then [Say text] else []))
         else Afplay raw_path # (if afplay_error env \<noteq> None then [Say text] else []))
        @ [Unlink raw_path, Unlink fast_path]
      else if OPENAI_API_KEY cfg \<noteq> [] then
        Request OpenAI #
        (if curl_error env \<noteq> None \<or> missing_or_below (raw_size env) 1000 then [Say text]
         else Afplay raw_path # (if afplay_error env \<noteq> None then [Say text] else []))
        @ [Unlink raw_path]
      else [Say text])"
  by (auto simp: speak_def speak_elevenlabs_def speak_openai_def speak_macos_result
      elevenlabs_try_cases openai_try_cases split: prod.splits option.splits if_splits)

lemma speak_say_iff_failed:
  "filter is_say (snd (speak cfg env text)) =
     (if ELEVENLABS_API_KEY cfg \<noteq> [] then
        (if curl_error env \<noteq> None \<or> missing_or_below (raw_size env) 1000 \<or>
            (ELEVENLABS_SPEED cfg \<noteq> 1 \<and> ffmpeg_error env \<noteq> None) \<or> afplay_error env \<noteq> None
         then [Say text] else [])
      else if OPENAI_API_KEY cfg \<noteq> [] then
        (if curl_error env \<noteq> None \<or> missing_or_below (raw_size env) 1000 \<or>
            afplay_error env \<noteq> None
         then [Say text] else [])
      else [Say text])"
  by (auto simp: speak_trace)

lemma speak_afplay:
  "filter is_afplay (snd (speak cfg env text)) =
     (if ELEVENLABS_API_KEY cfg \<noteq> [] then
        (if curl_error env = None \<and> \<not> missing_or_below (raw_size env) 1000 \<and>
            (ELEVENLABS_SPEED cfg = 1 \<or> ffmpeg_error env = None)
         then [Afplay (if ELEVENLABS_SPEED cfg \<noteq> 1 \<and> exists_and_above (fast_size env) 500
                       then fast_path else raw_path)]
         else [])
      else if OPENAI_API_KEY cfg \<noteq> [] then
        (if curl_error env = None \<and> \<not> missing_or_below (raw_size env) 1000
         then [Afplay raw_path] else [])
      else [])"
  by (auto simp: speak_trace)

text \<open>
  Claim C8: no exception leaves \<^verbatim>\<open>speak\<close>; it sends exactly one cloud request,
  to ElevenLabs if that key is set, else to OpenAI if that key is set, and none (only
  the local \<^verbatim>\<open>say\<close> command) if neither is.  The commands it starts are, in order:
  the request; then \<^verbatim>\<open>say\<close> if the request raised or its audio file is missing or
  smaller than 1000 bytes, else (for ElevenLabs at a speed other than 1) the
  re-encoding, then \<^verbatim>\<open>say\<close> if that raised, else the player on the chosen file, then
  \<^verbatim>\<open>say\<close> if the player raised; last the removal of the temporary files.  So a
  chosen cloud backend starts \<^verbatim>\<open>say\<close>, once, exactly when one of its own steps
  failed, and it plays its audio exactly when every step before the player succeeded; in
  particular, whenever the audio file is missing or smaller than 1000 bytes,
  \<^verbatim>\<open>say\<close> is started with the text and nothing is played.
\<close>

theorem speak_one_backend_with_local_fallback:
  "fst (speak cfg env text) = None \<and>
   filter is_request (snd (speak cfg env text)) =
     (if ELEVENLABS_API_KEY cfg \<noteq> [] then [Request ElevenLabs]
      else if OPENAI_API_KEY cfg \<noteq> [] then [Request OpenAI]
      else []) \<and>
   snd (speak cfg env text) =
     (if ELEVENLABS_API_KEY cfg \<noteq> [] then
        Request ElevenLabs #
        (if curl_error env \<noteq> None \<or> missing_or_below (raw_size env) 1000 then [Say text]
         else if ELEVENLABS_SPEED cfg \<noteq> 1 then
           Ffmpeg #
           (if ffmpeg_error env \<noteq> None then [Say text]
            else Afplay (if exists_and_above (fast_size env) 500 then fast_path else raw_path) #
                 (if afplay_error env \<noteq> None then [Say text] else []))
         else Afplay raw_path # (if afplay_error env \<noteq> None then [Say text] else []))
        @ [Unlink raw_path, Unlink fast_path]
      else if OPENAI_API_KEY cfg \<noteq> [] then
        Request OpenAI #
        (if curl_error env \<noteq> None \<or> missing_or_below (raw_size env) 1000 then [Say text]
         else Afplay raw_path # (if afplay_error env \<noteq> None then [Say text] else []))
        @ [Unlink raw_path]
      else [Say text]) \<and>
   filter is_say (snd (speak cfg env text)) =
     (if ELEVENLABS_API_KEY cfg \<noteq> [] then
        (if curl_error env \<noteq> None \<or> missing_or_below (raw_size env) 1000 \<or>
            (ELEVENLABS_SPEED cfg \<noteq> 1 \<and> ffmpeg_error env \<noteq> None) \<or> afplay_error env \<noteq> None
         then [Say text] else [])
      else if OPENAI_API_KEY cfg \<noteq> [] then
        (if curl_error env \<noteq> None \<or> missing_or_below (raw_size env) 1000 \<or>
            afplay_error env \<noteq> None
         then [Say text] else [])
      else [Say text]) \<and>
   filter is_afplay (snd (speak cfg env text)) =
     (if ELEVENLABS_API_KEY cfg \<noteq> [] then
        (if curl_error env = None \<and> \<not> missing_or_below (raw_size env) 1000 \<and>
            (ELEVENLABS_SPEED cfg = 1 \<or> ffmpeg_error env = None)
         then [Afplay (if ELEVENLABS_SPEED cfg \<noteq> 1 \<and> exists_and_above (fast_size env) 500
                       then fast_path else raw_path)]
         else [])
      else if OPENAI_API_KEY cfg \<noteq> [] then
        (if curl_error env = None \<and> \<not> missing_or_below (raw_size env) 1000
         then [Afplay raw_path] else [])
      else []) \<and>
   (ELEVENLABS_API_KEY cfg = [] \<and> OPENAI_API_KEY cfg = [] \<longrightarrow>
      snd (speak cfg env text) = [Say text]) \<and>
   length (filter is_say (snd (speak cfg env text))) \<le> 1 \<and>
   ((ELEVENLABS_API_KEY cfg \<noteq> [] \<or> OPENAI_API_KEY cfg \<noteq> []) \<and>
    curl_error env = None \<and> \<not> missing_or_below (raw_size env) 1000 \<and>
    ffmpeg_error env = None \<and> afplay_error env = None \<longrightarrow>
      filter is_say (snd (speak cfg env text)) = []) \<and>
   (missing_or_below (raw_size env) 1000 \<longrightarrow>
      filter is_say (snd (speak cfg env text)) = [Say text] \<and>
      filter is_afplay (snd (speak cfg env text)) = [])"
proof (intro conjI)
  show "fst (speak cfg env text) = None" by (rule speak_no_exception)
  show "filter is_request (snd (speak cfg env text)) =
     (if ELEVENLABS_API_KEY cfg \<noteq> [] then [Request ElevenLabs]
      else if OPENAI_API_KEY cfg \<noteq> [] then [Request OpenAI]
      else [])" by (rule speak_requests)
  show "ELEVENLABS_API_KEY cfg = [] \<and> OPENAI_API_KEY cfg = [] \<longrightarrow>
      snd (speak cfg env text) = [Say text]" by (simp add: speak_local_only)
  show "length (filter is_say (snd (speak cfg env text))) \<le> 1" by (rule speak_say_once)
  show "(ELEVENLABS_API_KEY cfg \<noteq> [] \<or> OPENAI_API_KEY cfg \<noteq> []) \<and>
    curl_error env = None \<and> \<not> missing_or_below (raw_size env) 1000 \<and>
    ffmpeg_error env = None \<and> afplay_error env = None \<longrightarrow>
      filter is_say (snd (speak cfg env text)) = []" by (simp add: speak_cloud_ok)
  show "missing_or_below (raw_size env) 1000 \<longrightarrow>
      filter is_say (snd (speak cfg env text)) = [Say text] \<and>
      filter is_afplay (snd (speak cfg env text)) = []" by (simp add: speak_undersized)
qed (rule speak_trace speak_say_iff_failed speak_afplay)+

text \<open>
  Three runs with the ElevenLabs key set: a file of 0 bytes, a request that times out,
  and a request that succeeds; and one run with no key.
\<close>

theorem speak_one_backend_with_local_fallback_witness:
  "missing_or_below (raw_size empty_file_env) 1000 \<and>
   speak cloud_cfg empty_file_env ''hello''
     = (None, [Request ElevenLabs, Say ''hello'', Unlink raw_path, Unlink fast_path]) \<and>
   speak cloud_cfg curl_timeout_env ''hello''
     = (None, [Request ElevenLabs, Say ''hello'', Unlink raw_path, Unlink fast_path]) \<and>
   speak cloud_cfg good_env ''hello''
     = (None, [Request ElevenLabs, Afplay raw_path, Unlink raw_path, Unlink fast_path]) \<and>
   speak local_cfg empty_file_env ''hello'' = (None, [Say ''hello''])"
proof -
  have h: "missing_or_below (raw_size empty_file_env) 1000"
    by (simp add: empty_file_env_def missing_or_below_def)
  note t = speak_one_backend_with_local_fallback
  from t [of cloud_cfg empty_file_env "''hello''"]
  have "fst (speak cloud_cfg empty_file_env ''hello'') = None"
    and "snd (speak cloud_cfg empty_file_env ''hello'')
           = [Request ElevenLabs, Say ''hello'', Unlink raw_path, Unlink fast_path]"
    by (simp_all add: cloud_cfg_def empty_file_env_def missing_or_below_def)
  then have a: "speak cloud_cfg empty_file_env ''hello''
     = (None, [Request ElevenLabs, Say ''hello'', Unlink raw_path, Unlink fast_path])"
    by (simp add: prod_eq_iff)
  from t [of cloud_cfg curl_timeout_env "''hello''"]
  have "fst (speak cloud_cfg curl_timeout_env ''hello'') = None"
    and "snd (speak cloud_cfg curl_timeout_env ''hello'')
           = [Request ElevenLabs, Say ''hello'', Unlink raw_path, Unlink fast_path]"
    by (simp_all add: cloud_cfg_def curl_timeout_env_def)
  then have b: "speak cloud_cfg curl_timeout_env ''hello''
     = (None, [Request ElevenLabs, Say ''hello'', Unlink raw_path, Unlink fast_path])"
    by (simp add: prod_eq_iff)
  from t [of cloud_cfg good_env "''hello''"]
  have "fst (speak cloud_cfg good_env ''hello'') = None"
    and "snd (speak cloud_cfg good_env ''hello'')
           = [Request ElevenLabs, Afplay raw_path, Unlink raw_path, Unlink fast_path]"
    by (simp_all add: cloud_cfg_def good_env_def missing_or_below_def)
  then have c: "speak cloud_cfg good_env ''hello''
     = (None, [Request ElevenLabs, Afplay raw_path, Unlink raw_path, Unlink fast_path])"
    by (simp add: prod_eq_iff)
  from t [of local_cfg empty_file_env "''hello''"]
  have "fst (speak local_cfg empty_file_env ''hello'') = None"
    and "snd (speak local_cfg empty_file_env ''hello'') = [Say ''hello'']"
    by (simp_all add: local_cfg_def)
  then have d: "speak local_cfg empty_file_env ''hello'' = (None, [Say ''hello''])"
    by (simp add: prod_eq_iff)
  from h a b c d show ?thesis by simp
qed

subsection \<open>Turn loop\<close>

lemma reset_checks_bounds:
  "0 < M \<Longrightarrow> turn_count (reset_checks M st) < M \<and> consecutive_errors (reset_checks M st) < 3"
  by (simp add: reset_checks_def Let_def)

lemma reset_checks_due:
  "M \<le> turn_count st \<or> 3 \<le> consecutive_errors st \<Longrightarrow>
   reset_checks M st = st\<lparr>turn_count := 0, consecutive_errors := 0\<rparr>"
  by (auto simp: reset_checks_def Let_def)

lemma reset_checks_idle:
  "turn_count st < M \<Longrightarrow> consecutive_errors st < 3 \<Longrightarrow> reset_checks M st = st"
  by (simp add: reset_checks_def Let_def)

lemma turn_record_events:
  "Record tc ce \<in> set (fst (turn M cfg env st)) \<Longrightarrow>
   tc = turn_count (reset_checks M st) \<and> ce = consecutive_errors (reset_checks M st)"
  by (auto simp: turn_def Let_def split: sum.splits option.splits if_splits prod.splits)

lemma turn_first_event:
  "hd (fst (turn M cfg env st)) =
     Record (turn_count (reset_checks M st)) (consecutive_errors (reset_checks M st))"
  by (auto simp: turn_def Let_def split: sum.splits option.splits if_splits prod.splits)

lemma reset_checks_errors_bound: "consecutive_errors (reset_checks M st) < 3"
  by (simp add: reset_checks_def Let_def)

lemma main_loop_record_events:
  "Record tc ce \<in> set (fst (main_loop M cfg envs st)) \<Longrightarrow> ce < 3 \<and> (0 < M \<longrightarrow> tc < M)"
proof (induction envs arbitrary: st)
  case Nil
  then show ?case by simp
next
  case (Cons env envs)
  obtain evs st' go where t: "turn M cfg env st = (evs, st', go)"
    by (cases "turn M cfg env st") auto
  obtain evs' st'' where m: "main_loop M cfg envs st' = (evs', st'')"
    by (cases "main_loop M cfg envs st'") auto
  from Cons.prems t m have "Record tc ce \<in> set evs \<or> Record tc ce \<in> set evs'"
    by (auto split: if_splits)
  then show ?case
  proof
    assume "Record tc ce \<in> set evs"
    with t have "Record tc ce \<in> set (fst (turn M cfg env st))" by simp
    then have "tc = turn_count (reset_checks M st) \<and> ce = consecutive_errors (reset_checks M st)"
      by (rule turn_record_events)
    with reset_checks_bounds [of M st] reset_checks_errors_bound [of M st]
    show ?thesis by simp
  next
    assume "Record tc ce \<in> set evs'"
    with m have "Record tc ce \<in> set (fst (main_loop M cfg envs st'))" by simp
    then show ?thesis by (rule Cons.IH)
  qed
qed

text \<open>
  Claim C2 says that \<^verbatim>\<open>turn_count < MAX_TURNS\<close> and \<^verbatim>\<open>consecutive_errors < 3\<close>
  hold whenever \<^verbatim>\<open>record_utterance\<close> is invoked.  \<^verbatim>\<open>MAX_TURNS\<close> is read from the
  environment without a check; the first bound needs it to be positive.  Claim C2,
  amended: in every pass of the loop, from any values of the counters,
  \<^verbatim>\<open>record_utterance\<close> is invoked with \<^verbatim>\<open>consecutive_errors < 3\<close> and, if
  \<^verbatim>\<open>MAX_TURNS\<close> is at least 1, with \<^verbatim>\<open>turn_count < MAX_TURNS\<close>; and, for
  every value of \<^verbatim>\<open>MAX_TURNS\<close>, a pass that starts with \<^verbatim>\<open>turn_count\<close> at
  \<^verbatim>\<open>MAX_TURNS\<close> or more, or with \<^verbatim>\<open>consecutive_errors\<close> at 3 or more, sets
  both counters to 0 before it records.
\<close>

theorem reset_checks_before_recording:
  "(\<forall>tc ce. Record tc ce \<in> set (fst (main_loop MAX_TURNS cfg envs st))
      \<longrightarrow> ce < 3 \<and> (0 < MAX_TURNS \<longrightarrow> tc < MAX_TURNS)) \<and>
   (MAX_TURNS \<le> turn_count st \<or> 3 \<le> consecutive_errors st
      \<longrightarrow> reset_checks MAX_TURNS st = st\<lparr>turn_count := 0, consecutive_errors := 0\<rparr> \<and>
          hd (fst (turn MAX_TURNS cfg env st)) = Record 0 0)"
proof -
  have a: "ce < 3 \<and> (0 < MAX_TURNS \<longrightarrow> tc < MAX_TURNS)"
    if "Record tc ce \<in> set (fst (main_loop MAX_TURNS cfg envs st))" for tc ce
    using that by (rule main_loop_record_events)
  have b: "reset_checks MAX_TURNS st = st\<lparr>turn_count := 0, consecutive_errors := 0\<rparr> \<and>
           hd (fst (turn MAX_TURNS cfg env st)) = Record 0 0"
    if due: "MAX_TURNS \<le> turn_count st \<or> 3 \<le> consecutive_errors st"
  proof -
    from due have r: "reset_checks MAX_TURNS st = st\<lparr>turn_count := 0, consecutive_errors := 0\<rparr>"
      by (rule reset_checks_due)
    then show ?thesis by (simp add: turn_first_event)
  qed
  from a b show ?thesis by blast
qed

lemma canned_turn:
  "turn M cloud_cfg agent_timeout_env st =
     ([Record (turn_count (reset_checks M st)) (consecutive_errors (reset_checks M st)),
       Transcribe, Ask ''hello'',
       Speak ''Sorry, that took too long. Try again.''
         [Request ElevenLabs, Say ''Sorry, that took too long. Try again.'',
          Unlink raw_path, Unlink fast_path]],
      count_error (reset_checks M st), True)"
proof -
  have d: "\<not> discards ''hello''"
    by (simp add: discards_def py_lower_def py_lower_char_def py_strip_def py_isspace_def
        denylist_def)
  have s: "speak cloud_cfg empty_file_env t
             = (None, [Request ElevenLabs, Say t, Unlink raw_path, Unlink fast_path])" for t
    by (simp add: speak_def cloud_cfg_def speak_elevenlabs_def elevenlabs_try_def
        empty_file_env_def missing_or_below_def speak_macos_def)
  show ?thesis
    by (simp add: turn_def agent_timeout_env_def d s ask_agent_def Let_def)
qed

lemma three_timeouts:
  "snd (main_loop 50 cloud_cfg [agent_timeout_env, agent_timeout_env, agent_timeout_env]
          counters_init) = \<lparr>turn_count = 0, consecutive_errors = 3\<rparr>"
  by (simp add: canned_turn counters_init_def reset_checks_def count_error_def)

lemma too_short_turn:
  "turn M cfg too_short_env st =
     ([Record (turn_count (reset_checks M st)) (consecutive_errors (reset_checks M st))],
      reset_checks M st, True)"
  by (simp add: turn_def too_short_env_def Let_def)

text \<open>
  Three agent timeouts and a clip that is too short, with \<^verbatim>\<open>MAX_TURNS = 50\<close>:
  the fourth recording starts with both counters at 0.  With \<^verbatim>\<open>MAX_TURNS = 0\<close>
  the reset still happens.
\<close>

theorem reset_checks_before_recording_witness:
  "fst (main_loop 50 cloud_cfg
          [agent_timeout_env, agent_timeout_env, agent_timeout_env, too_short_env] counters_init)
     ! 12 = Record 0 0 \<and>
   (0::int) < 3 \<and> (0::int) < 50 \<and>
   (3::int) \<le> consecutive_errors \<lparr>turn_count = 7, consecutive_errors = 3\<rparr> \<and>
   reset_checks 50 \<lparr>turn_count = 7, consecutive_errors = 3\<rparr>
     = \<lparr>turn_count = 0, consecutive_errors = 0\<rparr> \<and>
   hd (fst (turn 50 cloud_cfg too_short_env \<lparr>turn_count = 7, consecutive_errors = 3\<rparr>))
     = Record 0 0 \<and>
   (0::int) \<le> turn_count \<lparr>turn_count = 7, consecutive_errors = 1\<rparr> \<and>
   hd (fst (turn 0 cloud_cfg too_short_env \<lparr>turn_count = 7, consecutive_errors = 1\<rparr>))
     = Record 0 0"
proof -
  let ?envs = "[agent_timeout_env, agent_timeout_env, agent_timeout_env, too_short_env]"
  let ?evs = "fst (main_loop 50 cloud_cfg ?envs counters_init)"
  have p: "(0::int) < 50" by simp
  have d: "(50::int) \<le> turn_count \<lparr>turn_count = 7, consecutive_errors = 3\<rparr> \<or>
           (3::int) \<le> consecutive_errors \<lparr>turn_count = 7, consecutive_errors = 3\<rparr>"
    by simp
  have d0: "(0::int) \<le> turn_count \<lparr>turn_count = 7, consecutive_errors = 1\<rparr> \<or>
           (3::int) \<le> consecutive_errors \<lparr>turn_count = 7, consecutive_errors = 1\<rparr>"
    by simp
  have len: "length ?evs = 13"
    by (simp add: canned_turn too_short_turn)
  have e: "?evs ! 12 = Record 0 0"
    by (simp add: canned_turn too_short_turn counters_init_def reset_checks_def
        count_error_def)
  from len have "?evs ! 12 \<in> set ?evs" by simp
  with e have m: "Record 0 0 \<in> set ?evs" by simp
  from reset_checks_before_recording [where MAX_TURNS = 50 and cfg = cloud_cfg
      and envs = ?envs and st = counters_init] m p
  have a: "(0::int) < 3 \<and> (0::int) < 50" by blast
  from reset_checks_before_recording [where MAX_TURNS = 50 and cfg = cloud_cfg
      and env = too_short_env and st = "\<lparr>turn_count = 7, consecutive_errors = 3\<rparr>"] d
  have b: "reset_checks 50 \<lparr>turn_count = 7, consecutive_errors = 3\<rparr>
             = \<lparr>turn_count = 0, consecutive_errors = 0\<rparr> \<and>
           hd (fst (turn 50 cloud_cfg too_short_env \<lparr>turn_count = 7, consecutive_errors = 3\<rparr>))
             = Record 0 0"
    by simp
  from reset_checks_before_recording [where MAX_TURNS = 0 and cfg = cloud_cfg
      and env = too_short_env and st = "\<lparr>turn_count = 7, consecutive_errors = 1\<rparr>"] d0
  have c: "hd (fst (turn 0 cloud_cfg too_short_env \<lparr>turn_count = 7, consecutive_errors = 1\<rparr>))
             = Record 0 0"
    by simp
  from e a b c show ?thesis by simp
qed

text \<open>
  Claim C2 as stated fails with \<^verbatim>\<open>MAX_TURNS=0\<close> in the environment: the first pass
  resets the counters and records with \<^verbatim>\<open>turn_count = 0\<close>, which is not below 0.
\<close>

theorem recording_with_turn_count_at_limit:
  "fst (main_loop 0 local_cfg [too_short_env] counters_init) = [Record 0 0] \<and>
   \<not> ((0::int) < 0 \<and> (0::int) < 3)"
  by (simp add: too_short_turn counters_init_def reset_checks_def)

text \<open>
  Claim C10 says that a pass that discards its input leaves both counters unchanged.
  The reset checks run at the head of every pass, so a discarding pass that starts
  with a reset due does change them.  Claim C10, amended: when
  \<^verbatim>\<open>record_utterance\<close> returns \<^verbatim>\<open>None\<close>, or the transcript is empty or matches
  the denylist after lower-casing, the pass calls neither \<^verbatim>\<open>ask_agent\<close> nor
  \<^verbatim>\<open>speak\<close>, and it ends with the counters as the reset checks at its head left
  them (the values they had when \<^verbatim>\<open>record_utterance\<close> was invoked); if no reset was
  due at its head, both counters are unchanged over the whole pass.
\<close>

theorem discard_keeps_counters:
  assumes "recorded env = Inr None \<or>
           (\<exists>audio text. recorded env = Inr (Some audio) \<and> transcript env = Inr text \<and> discards text)"
  shows "filter is_ask_or_speak (fst (turn MAX_TURNS cfg env st)) = [] \<and>
         fst (snd (turn MAX_TURNS cfg env st)) = reset_checks MAX_TURNS st \<and>
         (turn_count st < MAX_TURNS \<and> consecutive_errors st < 3
            \<longrightarrow> fst (snd (turn MAX_TURNS cfg env st)) = st)"
proof -
  have a: "filter is_ask_or_speak (fst (turn MAX_TURNS cfg env st)) = [] \<and>
           fst (snd (turn MAX_TURNS cfg env st)) = reset_checks MAX_TURNS st"
    using assms by (auto simp: turn_def Let_def)
  then show ?thesis by (auto simp: reset_checks_idle)
qed

lemma hallucination_discarded: "discards ''Thank You.''"
  by code_simp

theorem discard_keeps_counters_witness:
  "discards ''Thank You.'' \<and>
   turn 50 cloud_cfg hallucination_env \<lparr>turn_count = 7, consecutive_errors = 2\<rparr>
     = ([Record 7 2, Transcribe], \<lparr>turn_count = 7, consecutive_errors = 2\<rparr>, True) \<and>
   fst (snd (turn 50 cloud_cfg too_short_env \<lparr>turn_count = 7, consecutive_errors = 2\<rparr>))
     = \<lparr>turn_count = 7, consecutive_errors = 2\<rparr>"
proof -
  have h: "recorded hallucination_env = Inr None \<or>
           (\<exists>audio text. recorded hallucination_env = Inr (Some audio) \<and>
              transcript hallucination_env = Inr text \<and> discards text)"
    by (simp add: hallucination_env_def hallucination_discarded)
  have t: "recorded too_short_env = Inr None \<or>
           (\<exists>audio text. recorded too_short_env = Inr (Some audio) \<and>
              transcript too_short_env = Inr text \<and> discards text)"
    by (simp add: too_short_env_def)
  have e: "turn 50 cloud_cfg hallucination_env \<lparr>turn_count = 7, consecutive_errors = 2\<rparr>
     = ([Record 7 2, Transcribe], \<lparr>turn_count = 7, consecutive_errors = 2\<rparr>, True)"
    by (simp add: turn_def hallucination_env_def hallucination_discarded reset_checks_def Let_def)
  from discard_keeps_counters [OF t, of 50 cloud_cfg "\<lparr>turn_count = 7, consecutive_errors = 2\<rparr>"]
  have "fst (snd (turn 50 cloud_cfg too_short_env \<lparr>turn_count = 7, consecutive_errors = 2\<rparr>))
     = \<lparr>turn_count = 7, consecutive_errors = 2\<rparr>" by (simp add: reset_checks_def)
  with e hallucination_discarded show ?thesis by simp
qed

text \<open>
  Claim C10 as stated fails after three agent timeouts in a row: the counters stand at
  \<open>(0, 3)\<close>, and the next pass, which discards a clip that is too short, ends with
  \<open>(0, 0)\<close>.
\<close>

theorem discard_turn_resets_counters:
  "snd (main_loop 50 cloud_cfg [agent_timeout_env, agent_timeout_env, agent_timeout_env]
          counters_init) = \<lparr>turn_count = 0, consecutive_errors = 3\<rparr> \<and>
   turn 50 cloud_cfg too_short_env \<lparr>turn_count = 0, consecutive_errors = 3\<rparr>
     = ([Record 0 0], \<lparr>turn_count = 0, consecutive_errors = 0\<rparr>, True) \<and>
   \<lparr>turn_count = 0, consecutive_errors = 0\<rparr> \<noteq> \<lparr>turn_count = 0, consecutive_errors = (3::int)\<rparr>"
  using three_timeouts by (simp add: too_short_turn reset_checks_def del: main_loop.simps)

end
